theory Spec2Isabelle
  imports Complex_Main "HOL-Library.Sublist"
begin

section \<open>JavaScript strings\<close>

text \<open>
  A JavaScript string is a sequence of UTF-16 code units; a code unit is modelled by its
  number. String literals of the source are written with \<open>lit\<close>; a code unit outside
  ASCII is written as its number (\<open>243\<close> is U+00F3).
\<close>

type_synonym jsstring = "nat list"

definition lit :: "string \<Rightarrow> jsstring" where
  "lit s = map of_char s"

text \<open>Template literals render a number in decimal: \<open>`${n}`\<close>.\<close>

fun show_nat :: "nat \<Rightarrow> jsstring" where
  "show_nat n = (if n < 10 then [48 + n] else show_nat (n div 10) @ [48 + n mod 10])"

declare show_nat.simps [simp del]

definition show_int :: "int \<Rightarrow> jsstring" where
  "show_int t = (if t < 0 then 45 # show_nat (nat (- t)) else show_nat (nat t))"

text \<open>\<open>Array.prototype.join\<close> with a separator.\<close>

fun join :: "jsstring \<Rightarrow> jsstring list \<Rightarrow> jsstring" where
  "join sep [] = []"
| "join sep [x] = x"
| "join sep (x # y # ys) = x @ sep @ join sep (y # ys)"

text \<open>
  \<open>String.prototype.trim\<close> strips white space and line terminators from both ends:
  TAB, LF, VT, FF, CR, SP, NBSP, U+1680, U+2000..U+200A, U+2028, U+2029, U+202F, U+205F,
  U+3000 and U+FEFF.
\<close>

definition is_ws :: "nat \<Rightarrow> bool" where
  "is_ws c = (c \<in> set [9, 10, 11, 12, 13, 32, 160, 5760, 8232, 8233, 8239, 8287, 12288, 65279]
              \<or> (8192 \<le> c \<and> c \<le> 8202))"

definition trim :: "jsstring \<Rightarrow> jsstring" where
  "trim s = rev (dropWhile is_ws (rev (dropWhile is_ws s)))"

text \<open>
  \<open>name.charAt(0).toUpperCase() + name.slice(1)\<close>. \<open>charAt(0)\<close> of the empty string
  is the empty string. The upper-casing of one code unit is the built-in Unicode mapping
  (it may give several code units); it is the parameter \<open>upper\<close>.
\<close>

definition capitalize :: "(nat \<Rightarrow> jsstring) \<Rightarrow> jsstring \<Rightarrow> jsstring" where
  "capitalize upper nm = (case nm of [] \<Rightarrow> [] | c # _ \<Rightarrow> upper c) @ drop 1 nm"

text \<open>The ASCII fragment of \<open>toUpperCase\<close>, used to run the model on concrete inputs.\<close>

definition upper_ascii :: "nat \<Rightarrow> jsstring" where
  "upper_ascii c = (if 97 \<le> c \<and> c \<le> 122 then [c - 32] else [c])"

section \<open>Data model (types.ts)\<close>

datatype DietaryPreference = NONE | VEGETARIAN | VEGAN

fun pref_value :: "DietaryPreference \<Rightarrow> jsstring" where
  "pref_value NONE = lit ''Ninguna''"
| "pref_value VEGETARIAN = lit ''Vegetariano''"
| "pref_value VEGAN = lit ''Vegano''"

record Ingredient =
  ing_id :: jsstring
  name :: jsstring
  isPriority :: bool

datatype Difficulty = Facil | Media | Dificil

record Recipe =
  recipe_id :: jsstring
  title :: jsstring
  description :: jsstring
  ingredientsUsed :: "jsstring list"
  missingIngredients :: "jsstring list"
  steps :: "jsstring list"
  difficulty :: Difficulty
  time :: jsstring

datatype ViewState = HOME | CAMERA | INGREDIENTS | RECIPES | RECIPE_DETAIL

section \<open>Application state (App component)\<close>

text \<open>
  A media stream is the list of its tracks. The \<open>useState\<close> cells of the component are
  the first ten fields. The last three fields log the effects the handlers have on the
  outside: the messages passed to \<open>alert\<close>, the tracks on which \<open>stop()\<close> was called,
  and the calls made to \<open>suggestRecipes\<close>.
\<close>

type_synonym MediaStream = "nat list"

record app =
  view :: ViewState
  loading :: bool
  loadingMessage :: jsstring
  ingredients :: "Ingredient list"
  recipes :: "Recipe list"
  selectedRecipe :: "Recipe option"
  dietaryPreference :: DietaryPreference
  newIngredientText :: jsstring
  capturedImages :: "jsstring option list"
  stream :: "MediaStream option"
  alerts :: "jsstring list"
  stoppedTracks :: "nat list"
  suggestCalls :: "(Ingredient list \<times> DietaryPreference) list"

definition init_app :: app where
  "init_app = \<lparr> view = HOME, loading = False, loadingMessage = [], ingredients = [],
      recipes = [], selectedRecipe = None, dietaryPreference = NONE, newIngredientText = [],
      capturedImages = [], stream = None, alerts = [], stoppedTracks = [], suggestCalls = [] \<rparr>"

definition alert :: "jsstring \<Rightarrow> app \<Rightarrow> app" where
  "alert msg s = s\<lparr>alerts := alerts s @ [msg]\<rparr>"

section \<open>Ingredient roster\<close>

definition manual_id :: "int \<Rightarrow> jsstring" where
  "manual_id now = lit ''manual-'' @ show_int now"

definition addManualIngredient :: "int \<Rightarrow> app \<Rightarrow> app" where
  "addManualIngredient now s =
     (if trim (newIngredientText s) = [] then s
      else let newIng = \<lparr> ing_id = manual_id now, name = trim (newIngredientText s),
                            isPriority = False \<rparr>
           in s\<lparr>ingredients := ingredients s @ [newIng], newIngredientText := []\<rparr>)"

definition removeIngredient :: "jsstring \<Rightarrow> app \<Rightarrow> app" where
  "removeIngredient i s = s\<lparr>ingredients := filter (\<lambda>x. ing_id x \<noteq> i) (ingredients s)\<rparr>"

definition togglePriority :: "jsstring \<Rightarrow> app \<Rightarrow> app" where
  "togglePriority i s =
     s\<lparr>ingredients := map (\<lambda>x. if ing_id x = i then x\<lparr>isPriority := \<not> isPriority x\<rparr> else x)
                           (ingredients s)\<rparr>"

section \<open>Capture session\<close>

definition stopCamera :: "app \<Rightarrow> app" where
  "stopCamera s =
     (case stream s of
        None \<Rightarrow> s
      | Some tracks \<Rightarrow> s\<lparr>stoppedTracks := stoppedTracks s @ tracks, stream := None\<rparr>)"

text \<open>
  \<open>capturePhoto\<close> reads the two element refs. The video element exposes its ready state
  and natural size; the canvas has a size and may or may not give a 2D context.
  \<open>toDataURL w h mime quality\<close> stands for drawing the current frame on the canvas of
  size \<open>w\<close> by \<open>h\<close> and encoding it. \<open>dataUrl.split(',')[1]\<close> is \<open>undefined\<close> (here
  \<open>None\<close>) when the data URL holds no comma.
\<close>

record HTMLVideoElement =
  readyState :: nat
  videoWidth :: nat
  videoHeight :: nat

record HTMLCanvasElement =
  width :: nat
  height :: nat
  context2d :: bool

record refs =
  videoRef :: "HTMLVideoElement option"
  canvasRef :: "HTMLCanvasElement option"

definition HAVE_ENOUGH_DATA :: nat where
  "HAVE_ENOUGH_DATA = 4"

definition split_comma_1 :: "jsstring \<Rightarrow> jsstring option" where
  "split_comma_1 s =
     (case dropWhile (\<lambda>c. c \<noteq> 44) s of
        [] \<Rightarrow> None
      | _ # rest \<Rightarrow> Some (takeWhile (\<lambda>c. c \<noteq> 44) rest))"

definition capturePhoto ::
  "(nat \<Rightarrow> nat \<Rightarrow> jsstring \<Rightarrow> rat \<Rightarrow> jsstring) \<Rightarrow> refs \<times> app \<Rightarrow> refs \<times> app" where
  "capturePhoto toDataURL rs =
     (let (r, s) = rs in
      case (videoRef r, canvasRef r) of
        (Some video, Some canvas) \<Rightarrow>
          if readyState video = HAVE_ENOUGH_DATA \<or> videoWidth video > 0 then
            let canvas' = canvas\<lparr>width := videoWidth video, height := videoHeight video\<rparr>;
                r' = r\<lparr>canvasRef := Some canvas'\<rparr>
            in if context2d canvas' then
                 let dataUrl = toDataURL (width canvas') (height canvas') (lit ''image/jpeg'') (8 / 10);
                     base64 = split_comma_1 dataUrl
                 in (r', s\<lparr>capturedImages := capturedImages s @ [base64]\<rparr>)
               else (r', s)
          else (r, s)
      | _ \<Rightarrow> (r, s))"

section \<open>Provider gateway (geminiService)\<close>

text \<open>
  The two backing providers are outside the program. A call to one of them either throws
  (transport error, non-OK status, malformed JSON) or gives the decoded payload; this
  outcome is the parameter \<open>call\<close>. \<open>openai_key\<close> says whether \<open>API_KEY_OPENAI\<close> is
  set. For detection the payload is the \<open>ingredients\<close> field, \<open>None\<close> when it is absent
  or null.
\<close>

datatype Provider = OpenAI | Gemini

definition detectIngredientsFromImages ::
  "bool \<Rightarrow> (Provider \<Rightarrow> jsstring option list \<Rightarrow> 'e + jsstring list option)
     \<Rightarrow> jsstring option list \<Rightarrow> jsstring + jsstring list" where
  "detectIngredientsFromImages openai_key call base64Images =
     (case call (if openai_key then OpenAI else Gemini) base64Images of
        Inl e \<Rightarrow> Inl (lit ''No pudimos identificar los ingredientes. Int'' @ [233]
                       @ lit ''ntalo de nuevo.'')
      | Inr None \<Rightarrow> Inr []
      | Inr (Some ns) \<Rightarrow> Inr ns)"

definition ingredientNames :: "Ingredient list \<Rightarrow> jsstring" where
  "ingredientNames roster = join (lit '', '') (map name roster)"

definition priorityNames :: "Ingredient list \<Rightarrow> jsstring" where
  "priorityNames roster = join (lit '', '') (map name (filter isPriority roster))"

definition priority_clause :: "Ingredient list \<Rightarrow> jsstring" where
  "priority_clause roster =
     (if priorityNames roster \<noteq> [] then
        lit ''IMPORTANTE: Debes intentar usar estos ingredientes prioritarios que van a caducar: ''
        @ priorityNames roster @ lit ''. ''
      else [])"

definition diet_clause :: "DietaryPreference \<Rightarrow> jsstring" where
  "diet_clause preference =
     (if preference \<noteq> NONE then
        lit ''Restricci'' @ [243] @ lit ''n diet'' @ [233] @ lit ''tica estricta: ''
        @ pref_value preference @ lit ''. ''
      else [])"

definition request_clause :: jsstring where
  "request_clause =
     [10] @ lit ''      Sugiere 4 recetas sencillas y creativas que maximicen el uso de mis ingredientes disponibles. ''
     @ [10] @ lit ''      Se permiten sugerir ingredientes b'' @ [225]
     @ lit ''sicos de despensa (sal, aceite, pimienta, agua) sin listarlos como ''
     @ [34] @ lit ''faltantes'' @ [34] @ lit ''.''
     @ [10] @ lit ''      Prioriza recetas donde ''
     @ [39] @ lit ''missingIngredients'' @ [39] @ lit '' sea una lista vac'' @ [237] @ lit ''a o muy corta.''
     @ [10] @ lit ''    ''"

definition suggest_prompt :: "Ingredient list \<Rightarrow> DietaryPreference \<Rightarrow> jsstring" where
  "suggest_prompt roster preference =
     (let prompt = lit ''Tengo estos ingredientes disponibles: '' @ ingredientNames roster @ lit ''. '';
          prompt = prompt @ priority_clause roster;
          prompt = prompt @ diet_clause preference;
          prompt = prompt @ request_clause
      in prompt)"

text \<open>What the selected provider receives as the brief.\<close>

definition brief_sent :: "bool \<Rightarrow> Ingredient list \<Rightarrow> DietaryPreference \<Rightarrow> Provider \<times> jsstring" where
  "brief_sent openai_key roster preference =
     (if openai_key then (OpenAI, suggest_prompt roster preference)
      else (Gemini, suggest_prompt roster preference @ lit '' Devuelve la respuesta en formato JSON.''))"

definition provider_tag :: "Provider \<Rightarrow> jsstring" where
  "provider_tag p = (case p of OpenAI \<Rightarrow> lit ''recipe-openai-'' | Gemini \<Rightarrow> lit ''recipe-gemini-'')"

definition suggestRecipes ::
  "bool \<Rightarrow> (Provider \<Rightarrow> jsstring \<Rightarrow> 'e + Recipe list) \<Rightarrow> (nat \<Rightarrow> int)
     \<Rightarrow> Ingredient list \<Rightarrow> DietaryPreference \<Rightarrow> jsstring + Recipe list" where
  "suggestRecipes openai_key call now roster preference =
     (let (p, brief) = brief_sent openai_key roster preference in
      case call p brief of
        Inl e \<Rightarrow> Inl (lit ''No pudimos generar recetas en este momento.'')
      | Inr rawRecipes \<Rightarrow>
          Inr (map (\<lambda>(index, r). r\<lparr>recipe_id := provider_tag p @ show_int (now index) @ [45] @ show_nat index\<rparr>)
                   (enumerate 0 rawRecipes)))"

section \<open>Image ingestion and recipe request (App component)\<close>

text \<open>
  \<open>Date.now()\<close> is read once for every mapped element; \<open>now idx\<close> is the reading taken for
  the element at \<open>idx\<close>. \<open>detect\<close> is the gateway's detection operation.
\<close>

definition detect_id :: "int \<Rightarrow> nat \<Rightarrow> jsstring" where
  "detect_id now idx = lit ''ing-'' @ show_int now @ [45] @ show_nat idx"

definition newIngredients :: "(nat \<Rightarrow> jsstring) \<Rightarrow> (nat \<Rightarrow> int) \<Rightarrow> jsstring list \<Rightarrow> Ingredient list" where
  "newIngredients upper now detectedNames =
     map (\<lambda>(idx, nm). \<lparr> ing_id = detect_id (now idx) idx, name = capitalize upper nm,
                          isPriority = False \<rparr>)
         (enumerate 0 detectedNames)"

definition processImages ::
  "(nat \<Rightarrow> jsstring) \<Rightarrow> (nat \<Rightarrow> int) \<Rightarrow> (jsstring option list \<Rightarrow> jsstring + jsstring list)
     \<Rightarrow> jsstring option list \<Rightarrow> app \<Rightarrow> app" where
  "processImages upper now detect images s =
     (let s1 = s\<lparr>loading := True, loadingMessage := lit ''Detectando ingredientes...''\<rparr>;
          s2 = (case detect images of
                  Inr detectedNames \<Rightarrow>
                    s1\<lparr>ingredients := ingredients s1 @ newIngredients upper now detectedNames,
                       view := INGREDIENTS\<rparr>
                | Inl error \<Rightarrow>
                    alert (lit ''Ocurri'' @ [243] @ lit '' un error. Int'' @ [233] @ lit ''ntalo de nuevo.'') s1)
      in s2\<lparr>loading := False\<rparr>)"

definition handleGenerateRecipes ::
  "(Ingredient list \<Rightarrow> DietaryPreference \<Rightarrow> jsstring + Recipe list) \<Rightarrow> app \<Rightarrow> app" where
  "handleGenerateRecipes suggest s =
     (if length (ingredients s) = 0 then
        alert (lit ''A'' @ [241] @ lit ''ade al menos un ingrediente.'') s
      else
        let s1 = s\<lparr>loading := True,
                   loadingMessage := lit ''Dise'' @ [241] @ lit ''ando recetas con tus ingredientes...''\<rparr>;
            s2 = s1\<lparr>suggestCalls := suggestCalls s1 @ [(ingredients s, dietaryPreference s)]\<rparr>;
            s3 = (case suggest (ingredients s) (dietaryPreference s) of
                    Inr generatedRecipes \<Rightarrow> s2\<lparr>recipes := generatedRecipes, view := RECIPES\<rparr>
                  | Inl error \<Rightarrow>
                      alert (lit ''Error al generar recetas. Int'' @ [233] @ lit ''ntalo m'' @ [225]
                             @ lit ''s tarde.'') s2)
        in s3\<lparr>loading := False\<rparr>)"

text \<open>
  \<open>finishCameraSession\<close> releases the camera, then hands the capture buffer to
  \<open>processImages\<close>, or returns to the home view when the buffer is empty.
\<close>

definition finishCameraSession ::
  "(nat \<Rightarrow> jsstring) \<Rightarrow> (nat \<Rightarrow> int) \<Rightarrow> (jsstring option list \<Rightarrow> jsstring + jsstring list)
     \<Rightarrow> app \<Rightarrow> app" where
  "finishCameraSession upper now detect s =
     (let s1 = stopCamera s in
      if length (capturedImages s) > 0 then processImages upper now detect (capturedImages s) s1
      else s1\<lparr>view := HOME\<rparr>)"

section \<open>Sequences of roster operations\<close>

text \<open>
  The four operations that change the roster. A manual add is the user typing the text
  into the entry field and calling \<open>addManualIngredient\<close>; a detection batch is a
  successful \<open>processImages\<close> whose gateway call returned the given names.
\<close>

datatype roster_op =
    DetectBatch "nat \<Rightarrow> int" "jsstring list"
  | ManualAdd int jsstring
  | Remove jsstring
  | Toggle jsstring

fun roster_step :: "(nat \<Rightarrow> jsstring) \<Rightarrow> app \<Rightarrow> roster_op \<Rightarrow> app" where
  "roster_step upper s (DetectBatch now names) = processImages upper now (\<lambda>_. Inr names) [] s"
| "roster_step upper s (ManualAdd now txt) = addManualIngredient now (s\<lparr>newIngredientText := txt\<rparr>)"
| "roster_step upper s (Remove i) = removeIngredient i s"
| "roster_step upper s (Toggle i) = togglePriority i s"

definition run_roster :: "(nat \<Rightarrow> jsstring) \<Rightarrow> app \<Rightarrow> roster_op list \<Rightarrow> app" where
  "run_roster upper s ops = foldl (roster_step upper) s ops"

definition roster_ids :: "app \<Rightarrow> jsstring list" where
  "roster_ids s = map ing_id (ingredients s)"

text \<open>
  The clock readings that end up in identifiers: one for each manual add that adds an
  entry, and one, paired with the position, for each detected name.
\<close>

fun manual_stamps :: "roster_op list \<Rightarrow> int list" where
  "manual_stamps [] = []"
| "manual_stamps (ManualAdd now txt # ops) =
     (if trim txt = [] then manual_stamps ops else now # manual_stamps ops)"
| "manual_stamps (_ # ops) = manual_stamps ops"

fun detect_stamps :: "roster_op list \<Rightarrow> (int \<times> nat) list" where
  "detect_stamps [] = []"
| "detect_stamps (DetectBatch now names # ops) =
     map (\<lambda>idx. (now idx, idx)) [0..<length names] @ detect_stamps ops"
| "detect_stamps (_ # ops) = detect_stamps ops"

section \<open>Concrete states used to run the model\<close>

definition cam_state :: app where
  "cam_state = init_app\<lparr>view := CAMERA, stream := Some [0, 1],
     ingredients := [\<lparr>ing_id = manual_id 7, name = lit ''Sal'', isPriority = True\<rparr>]\<rparr>"

definition typing_state :: app where
  "typing_state = init_app\<lparr>view := INGREDIENTS, newIngredientText := lit ''  ajo  ''\<rparr>"

definition roster_state :: app where
  "roster_state = init_app\<lparr>view := INGREDIENTS,
     ingredients := [\<lparr>ing_id = manual_id 7, name = lit ''Sal'', isPriority = True\<rparr>],
     recipes := [\<lparr>recipe_id = lit ''recipe-openai-5-0'', title = lit ''Sopa'', description = [],
                  ingredientsUsed = [lit ''Sal''], missingIngredients = [], steps = [lit ''Hervir''],
                  difficulty = Facil, time = lit ''15 min''\<rparr>]\<rparr>"

text \<open>
  The conjunction of the guards of \<open>capturePhoto\<close>: both elements are mounted, the video
  has enough data or a non-zero natural width, and the canvas gives a 2D context.
\<close>

definition capture_ready :: "refs \<Rightarrow> bool" where
  "capture_ready r =
     (case (videoRef r, canvasRef r) of
        (Some video, Some canvas) \<Rightarrow>
          (readyState video = HAVE_ENOUGH_DATA \<or> videoWidth video > 0) \<and> context2d canvas
      | _ \<Rightarrow> False)"

definition sample_toDataURL :: "nat \<Rightarrow> nat \<Rightarrow> jsstring \<Rightarrow> rat \<Rightarrow> jsstring" where
  "sample_toDataURL w h mime quality = lit ''data:'' @ mime @ lit '';base64,QUJD''"

definition mounted_refs :: refs where
  "mounted_refs = \<lparr> videoRef = Some \<lparr>readyState = 4, videoWidth = 640, videoHeight = 480\<rparr>,
                     canvasRef = Some \<lparr>width = 300, height = 150, context2d = True\<rparr> \<rparr>"

text \<open>
  A camera session with one captured photo whose hand-off to detection failed: the camera
  view is still shown and the device handle is released.
\<close>

definition failed_finish_state :: app where
  "failed_finish_state =
     finishCameraSession upper_ascii (\<lambda>_. 1700)
       (detectIngredientsFromImages False (\<lambda>p imgs. Inl ''503''))
       (cam_state\<lparr>capturedImages := [Some (lit ''QUJD'')]\<rparr>)"





definition sample_ops :: "roster_op list" where
  "sample_ops = [DetectBatch (\<lambda>_. 1700) [lit ''tomate'', lit ''queso''],
                 ManualAdd 1701 (lit ''  ajo  ''),
                 Toggle (lit ''ing-1700-0''),
                 Remove (lit ''ing-1700-1''),
                 ManualAdd 1702 (lit ''sal'')]"

section \<open>String lemmas\<close>

lemma trim_decomp:
  "s = takeWhile is_ws s @ trim s @ rev (takeWhile is_ws (rev (dropWhile is_ws s)))"
proof -
  let ?d = "dropWhile is_ws s"
  have "rev ?d = takeWhile is_ws (rev ?d) @ dropWhile is_ws (rev ?d)" by simp
  then have "?d = rev (dropWhile is_ws (rev ?d)) @ rev (takeWhile is_ws (rev ?d))"
    by (metis rev_append rev_rev_ident)
  then have "?d = trim s @ rev (takeWhile is_ws (rev ?d))" by (simp add: trim_def)
  moreover have "s = takeWhile is_ws s @ ?d" by simp
  ultimately show ?thesis by metis
qed

lemma trim_hd: "trim s \<noteq> [] \<Longrightarrow> \<not> is_ws (hd (trim s))"
proof -
  assume a: "trim s \<noteq> []"
  let ?d = "dropWhile is_ws s"
  have d: "?d \<noteq> []"
  proof
    assume "?d = []"
    then have "trim s = []" unfolding trim_def by (simp only: rev.simps dropWhile.simps)
    with a show False by simp
  qed
  have h: "\<not> is_ws (hd ?d)" using d by (simp add: hd_dropWhile)
  have "rev ?d = takeWhile is_ws (rev ?d) @ dropWhile is_ws (rev ?d)" by simp
  then have e: "?d = trim s @ rev (takeWhile is_ws (rev ?d))"
    unfolding trim_def by (metis rev_append rev_rev_ident)
  have "hd ?d = hd (trim s)" using a e by (metis hd_append2)
  with h show ?thesis by simp
qed

lemma trim_last: "trim s \<noteq> [] \<Longrightarrow> \<not> is_ws (last (trim s))"
proof -
  assume a: "trim s \<noteq> []"
  let ?r = "rev (dropWhile is_ws s)"
  have "dropWhile is_ws ?r \<noteq> []" using a by (simp add: trim_def)
  then have "\<not> is_ws (hd (dropWhile is_ws ?r))" by (simp add: hd_dropWhile)
  moreover have "last (trim s) = hd (dropWhile is_ws ?r)"
    using a by (simp add: trim_def last_rev)
  ultimately show ?thesis by simp
qed

lemma trim_ajo: "trim (lit ''  ajo  '') = lit ''ajo''"
  by (simp add: trim_def lit_def is_ws_def)

section \<open>Roster lemmas\<close>

lemma filter_absent: "i \<notin> set (map ing_id xs) \<Longrightarrow> filter (\<lambda>x. ing_id x \<noteq> i) xs = xs"
  by (induction xs) auto

lemma toggle_absent:
  "i \<notin> set (map ing_id xs) \<Longrightarrow>
   map (\<lambda>x. if ing_id x = i then x\<lparr>isPriority := \<not> isPriority x\<rparr> else x) xs = xs"
  by (induction xs) auto

section \<open>Idempotence of stop, remove and toggle\<close>

text \<open>
  C9. \<open>stopCamera\<close> leaves no device handle, so a second call in succession changes
  nothing; with no active device handle it is the identity. \<open>removeIngredient\<close> and
  \<open>togglePriority\<close> with an id that no roster entry carries return the state as it was.
  The three handlers are total: there is no error branch.
\<close>

theorem stop_remove_toggle_noop:
  "stream (stopCamera s) = None
   \<and> stopCamera (stopCamera s) = stopCamera s
   \<and> (stream s = None \<longrightarrow> stopCamera s = s)
   \<and> (i \<notin> set (roster_ids s) \<longrightarrow> removeIngredient i s = s \<and> togglePriority i s = s)"
  by (simp add: stopCamera_def removeIngredient_def togglePriority_def roster_ids_def
      filter_absent toggle_absent split: option.splits)

theorem stop_remove_toggle_noop_witness:
  "stream cam_state = Some [0, 1]
   \<and> stream (stopCamera cam_state) = None
   \<and> stopCamera (stopCamera cam_state) = stopCamera cam_state
   \<and> lit ''ing-1-0'' \<notin> set (roster_ids cam_state)
   \<and> removeIngredient (lit ''ing-1-0'') cam_state = cam_state
   \<and> togglePriority (lit ''ing-1-0'') cam_state = cam_state"
  using stop_remove_toggle_noop [of "stopCamera cam_state" "lit ''ing-1-0''"]
    stop_remove_toggle_noop [of cam_state "lit ''ing-1-0''"]
  by (simp add: cam_state_def init_app_def stopCamera_def roster_ids_def manual_id_def
      lit_def show_int_def show_nat.simps)

section \<open>Manual entry\<close>

text \<open>
  C10. When the pending text is not blank, \<open>addManualIngredient\<close> appends one entry whose
  name is the trimmed text and whose priority flag is off, and empties the pending text.
  The trimmed text is the pending text without a leading and a trailing run of white
  space, and it neither starts nor ends with white space.
\<close>

theorem addManual_stores_trimmed:
  assumes "trim (newIngredientText s) \<noteq> []"
  shows "addManualIngredient now s =
           s\<lparr>ingredients := ingredients s @
                [\<lparr>ing_id = manual_id now, name = trim (newIngredientText s), isPriority = False\<rparr>],
             newIngredientText := []\<rparr>
         \<and> (\<exists>pre suf. newIngredientText s = pre @ trim (newIngredientText s) @ suf
               \<and> list_all is_ws pre \<and> list_all is_ws suf)
         \<and> \<not> is_ws (hd (trim (newIngredientText s)))
         \<and> \<not> is_ws (last (trim (newIngredientText s)))"
proof -
  let ?t = "newIngredientText s"
  have 1: "addManualIngredient now s =
           s\<lparr>ingredients := ingredients s @
                [\<lparr>ing_id = manual_id now, name = trim ?t, isPriority = False\<rparr>],
             newIngredientText := []\<rparr>"
    using assms by (simp add: addManualIngredient_def)
  have "list_all is_ws (takeWhile is_ws ?t)"
    by (simp add: list_all_iff) (meson set_takeWhileD)
  moreover have "list_all is_ws (rev (takeWhile is_ws (rev (dropWhile is_ws ?t))))"
    by (simp add: list_all_iff) (meson set_takeWhileD)
  ultimately have 2: "\<exists>pre suf. ?t = pre @ trim ?t @ suf \<and> list_all is_ws pre \<and> list_all is_ws suf"
    using trim_decomp [of ?t] by blast
  show ?thesis using 1 2 trim_hd [OF assms] trim_last [OF assms] by blast
qed

theorem addManual_stores_trimmed_witness:
  "trim (newIngredientText typing_state) \<noteq> []
   \<and> ingredients (addManualIngredient 1700000000000 typing_state) =
       [\<lparr>ing_id = lit ''manual-1700000000000'', name = lit ''ajo'', isPriority = False\<rparr>]
   \<and> newIngredientText (addManualIngredient 1700000000000 typing_state) = []"
proof -
  have n: "trim (newIngredientText typing_state) \<noteq> []"
    by (simp add: typing_state_def trim_ajo) (simp add: lit_def)
  have m: "manual_id 1700000000000 = lit ''manual-1700000000000''"
    by (simp add: manual_id_def show_int_def show_nat.simps lit_def)
  have "addManualIngredient 1700000000000 typing_state =
           typing_state\<lparr>ingredients := ingredients typing_state @
                [\<lparr>ing_id = manual_id 1700000000000, name = trim (newIngredientText typing_state),
                   isPriority = False\<rparr>],
             newIngredientText := []\<rparr>"
    using addManual_stores_trimmed [OF n, of 1700000000000] by (rule conjunct1)
  then show ?thesis using n by (simp add: typing_state_def init_app_def trim_ajo m)
qed

section \<open>Image ingestion\<close>

lemma newIngredients_length: "length (newIngredients upper now names) = length names"
  by (simp add: newIngredients_def)

lemma newIngredients_nth:
  "i < length names \<Longrightarrow> newIngredients upper now names ! i =
     \<lparr>ing_id = detect_id (now i) i, name = capitalize upper (names ! i), isPriority = False\<rparr>"
  by (simp add: newIngredients_def nth_enumerate_eq)

text \<open>
  C2. When the detection operation returns a list of names, \<open>processImages\<close> leaves the
  existing roster entries in place and unchanged and appends one new entry per name, in
  order: the entry at position \<open>i\<close> has the identifier built from the clock reading and
  \<open>i\<close>, the capitalized name and the priority flag off. The view becomes the roster view
  and the loading flag is off. Nothing else changes but the loading message.
\<close>

theorem processImages_appends_batch:
  assumes "detect images = Inr names"
  shows "processImages upper now detect images s =
           s\<lparr>loading := False, loadingMessage := lit ''Detectando ingredientes...'',
             ingredients := ingredients s @ newIngredients upper now names, view := INGREDIENTS\<rparr>
   \<and> length (newIngredients upper now names) = length names
   \<and> (\<forall>i<length names. newIngredients upper now names ! i =
         \<lparr>ing_id = detect_id (now i) i, name = capitalize upper (names ! i), isPriority = False\<rparr>)"
  using assms by (simp add: processImages_def newIngredients_length newIngredients_nth)

theorem processImages_appends_batch_witness:
  "ingredients (processImages upper_ascii (\<lambda>_. 1700) (\<lambda>_. Inr [lit ''tomate'', lit ''queso''])
                  [Some (lit ''imgA''), Some (lit ''imgB'')] cam_state)
     = ingredients cam_state @
       [\<lparr>ing_id = lit ''ing-1700-0'', name = lit ''Tomate'', isPriority = False\<rparr>,
        \<lparr>ing_id = lit ''ing-1700-1'', name = lit ''Queso'', isPriority = False\<rparr>]
   \<and> view (processImages upper_ascii (\<lambda>_. 1700) (\<lambda>_. Inr [lit ''tomate'', lit ''queso''])
              [Some (lit ''imgA''), Some (lit ''imgB'')] cam_state) = INGREDIENTS"
proof -
  have n: "newIngredients upper_ascii (\<lambda>_. 1700) [lit ''tomate'', lit ''queso''] =
       [\<lparr>ing_id = lit ''ing-1700-0'', name = lit ''Tomate'', isPriority = False\<rparr>,
        \<lparr>ing_id = lit ''ing-1700-1'', name = lit ''Queso'', isPriority = False\<rparr>]"
    by (simp add: newIngredients_def enumerate_eq_zip upt_rec detect_id_def show_int_def show_nat.simps
        capitalize_def upper_ascii_def lit_def)
  have "processImages upper_ascii (\<lambda>_. 1700) (\<lambda>_. Inr [lit ''tomate'', lit ''queso''])
          [Some (lit ''imgA''), Some (lit ''imgB'')] cam_state =
        cam_state\<lparr>loading := False, loadingMessage := lit ''Detectando ingredientes...'',
          ingredients := ingredients cam_state
             @ newIngredients upper_ascii (\<lambda>_. 1700) [lit ''tomate'', lit ''queso''],
          view := INGREDIENTS\<rparr>"
    using processImages_appends_batch [of "\<lambda>_. Inr [lit ''tomate'', lit ''queso'']"
        "[Some (lit ''imgA''), Some (lit ''imgB'')]" "[lit ''tomate'', lit ''queso'']"
        upper_ascii "\<lambda>_. 1700" cam_state]
    by simp
  then show ?thesis by (simp add: n)
qed

text \<open>
  C3. When the provider call behind the detection operation throws, whatever the error,
  \<open>processImages\<close> passes exactly one fixed message to \<open>alert\<close>, leaves the roster, the
  view and every other cell as they were, and ends with the loading flag off (the loading
  message keeps the text set at the start of the call). The loading flag is off at the end
  of every call, whatever the detection operation returns.
\<close>

theorem processImages_failure:
  assumes "call (if openai_key then OpenAI else Gemini) images = Inl e"
  shows "processImages upper now (detectIngredientsFromImages openai_key call) images s =
           s\<lparr>loading := False, loadingMessage := lit ''Detectando ingredientes...'',
             alerts := alerts s @ [lit ''Ocurri'' @ [243] @ lit '' un error. Int'' @ [233]
                                   @ lit ''ntalo de nuevo.'']\<rparr>
   \<and> loading (processImages upper' now' detect images' s') = False"
  using assms
  by (simp add: processImages_def detectIngredientsFromImages_def alert_def Let_def
      split: sum.splits)

theorem processImages_failure_witness:
  "(\<lambda>p imgs. Inl ''503'') (if False then OpenAI else Gemini) [Some (lit ''imgA'')]
      = (Inl ''503'' :: string + jsstring list option)
   \<and> ingredients (processImages upper_ascii (\<lambda>_. 1700)
        (detectIngredientsFromImages False (\<lambda>p imgs. Inl ''503'')) [Some (lit ''imgA'')] cam_state)
      = ingredients cam_state
   \<and> view (processImages upper_ascii (\<lambda>_. 1700)
        (detectIngredientsFromImages False (\<lambda>p imgs. Inl ''503'')) [Some (lit ''imgA'')] cam_state)
      = CAMERA
   \<and> length (alerts (processImages upper_ascii (\<lambda>_. 1700)
        (detectIngredientsFromImages False (\<lambda>p imgs. Inl ''503'')) [Some (lit ''imgA'')] cam_state))
      = 1
   \<and> \<not> loading (processImages upper_ascii (\<lambda>_. 1700)
        (detectIngredientsFromImages False (\<lambda>p imgs. Inl ''503'')) [Some (lit ''imgA'')] cam_state)"
  using processImages_failure [of "\<lambda>p imgs. Inl ''503''" False "[Some (lit ''imgA'')]" "''503''"
      upper_ascii "\<lambda>_. 1700" cam_state]
  by (simp add: cam_state_def init_app_def)

section \<open>Recipe request\<close>

text \<open>
  C4. With an empty roster \<open>handleGenerateRecipes\<close> passes one validation message to
  \<open>alert\<close> and returns: \<open>suggestRecipes\<close> is not called, the view stays what it was (the
  roster view, from which the handler is reached) and no other cell changes.
\<close>

theorem handleGenerateRecipes_empty_roster:
  assumes "ingredients s = []"
  shows "handleGenerateRecipes suggest s =
           s\<lparr>alerts := alerts s @ [lit ''A'' @ [241] @ lit ''ade al menos un ingrediente.'']\<rparr>
     \<and> suggestCalls (handleGenerateRecipes suggest s) = suggestCalls s
     \<and> view (handleGenerateRecipes suggest s) = view s"
  using assms by (simp add: handleGenerateRecipes_def alert_def)

theorem handleGenerateRecipes_empty_roster_witness:
  "ingredients typing_state = []
   \<and> suggestCalls (handleGenerateRecipes (\<lambda>r p. Inr []) typing_state) = []
   \<and> view (handleGenerateRecipes (\<lambda>r p. Inr []) typing_state) = INGREDIENTS
   \<and> alerts (handleGenerateRecipes (\<lambda>r p. Inr []) typing_state)
       = [lit ''A'' @ [241] @ lit ''ade al menos un ingrediente.'']"
  using handleGenerateRecipes_empty_roster [of typing_state "\<lambda>r p. Inr []"]
  by (simp add: typing_state_def init_app_def)

text \<open>
  C5. With a non-empty roster, when the provider call behind \<open>suggestRecipes\<close> throws,
  whatever the error, \<open>handleGenerateRecipes\<close> passes exactly one fixed message to
  \<open>alert\<close>; the recipes held before, the roster and the view are unchanged, and the
  loading flag is off at the end (the loading message keeps the text set at the start of
  the call, and the call is recorded).
\<close>

theorem handleGenerateRecipes_failure:
  assumes "ingredients s \<noteq> []"
    and "brief_sent openai_key (ingredients s) (dietaryPreference s) = (p, brief)"
    and "call p brief = Inl e"
  shows "handleGenerateRecipes (suggestRecipes openai_key call now) s =
           s\<lparr>loading := False,
             loadingMessage := lit ''Dise'' @ [241] @ lit ''ando recetas con tus ingredientes...'',
             suggestCalls := suggestCalls s @ [(ingredients s, dietaryPreference s)],
             alerts := alerts s @ [lit ''Error al generar recetas. Int'' @ [233] @ lit ''ntalo m''
                                   @ [225] @ lit ''s tarde.'']\<rparr>
     \<and> recipes (handleGenerateRecipes (suggestRecipes openai_key call now) s) = recipes s
     \<and> ingredients (handleGenerateRecipes (suggestRecipes openai_key call now) s) = ingredients s
     \<and> view (handleGenerateRecipes (suggestRecipes openai_key call now) s) = view s"
  using assms
  by (simp add: handleGenerateRecipes_def suggestRecipes_def alert_def)

theorem handleGenerateRecipes_failure_witness:
  "ingredients roster_state \<noteq> []
   \<and> recipes roster_state \<noteq> []
   \<and> recipes (handleGenerateRecipes (suggestRecipes True (\<lambda>p b. Inl ''503'') (\<lambda>_. 1700)) roster_state)
       = recipes roster_state
   \<and> ingredients (handleGenerateRecipes (suggestRecipes True (\<lambda>p b. Inl ''503'') (\<lambda>_. 1700)) roster_state)
       = ingredients roster_state
   \<and> view (handleGenerateRecipes (suggestRecipes True (\<lambda>p b. Inl ''503'') (\<lambda>_. 1700)) roster_state)
       = INGREDIENTS
   \<and> length (alerts (handleGenerateRecipes (suggestRecipes True (\<lambda>p b. Inl ''503'') (\<lambda>_. 1700))
        roster_state)) = 1
   \<and> \<not> loading (handleGenerateRecipes (suggestRecipes True (\<lambda>p b. Inl ''503'') (\<lambda>_. 1700)) roster_state)"
proof -
  have a: "ingredients roster_state \<noteq> []" by (simp add: roster_state_def)
  have b: "brief_sent True (ingredients roster_state) (dietaryPreference roster_state)
      = (OpenAI, suggest_prompt (ingredients roster_state) (dietaryPreference roster_state))"
    by (simp add: brief_sent_def)
  have c: "(\<lambda>p b. Inl ''503'') OpenAI
             (suggest_prompt (ingredients roster_state) (dietaryPreference roster_state))
           = (Inl ''503'' :: string + Recipe list)"
    by simp
  show ?thesis
    using handleGenerateRecipes_failure [OF a b, of "\<lambda>p b. Inl ''503''" "''503''" "\<lambda>_. 1700", OF c] a
    by (simp add: roster_state_def init_app_def)
qed

section \<open>Still capture\<close>

text \<open>
  C6, as the specification states it, fails: \<open>capturePhoto\<close> never reads the device handle. After
  a camera session whose hand-off to detection failed, the camera view is still shown, the
  handle is released (\<open>stream\<close> is null) and the video element still holds a frame: a
  capture appends to the buffer.
\<close>

theorem capturePhoto_without_handle:
  "view failed_finish_state = CAMERA
   \<and> stream failed_finish_state = None
   \<and> capturedImages (snd (capturePhoto sample_toDataURL (mounted_refs, failed_finish_state)))
       = capturedImages failed_finish_state @ [Some (lit ''QUJD'')]"
  by (simp add: failed_finish_state_def finishCameraSession_def processImages_def
      detectIngredientsFromImages_def alert_def capturePhoto_def stopCamera_def cam_state_def
      mounted_refs_def init_app_def sample_toDataURL_def split_comma_1_def
      HAVE_ENOUGH_DATA_def lit_def)

text \<open>
  C6, amended. When the video and canvas elements are mounted, the video is in the
  have-enough-data state or has a non-zero natural width, and the canvas gives a 2D
  context, \<open>capturePhoto\<close> appends exactly one item at the end of the capture buffer: the
  payload of the JPEG data URL encoded with quality 0.8 on a canvas of the video's natural
  width and height. In every other case it returns the state as it was. No other cell
  changes, and the device handle plays no part.
\<close>

theorem capturePhoto_appends_or_noop:
  "(capture_ready r \<longrightarrow>
      (\<exists>video. videoRef r = Some video \<and>
         snd (capturePhoto toDataURL (r, s)) =
           s\<lparr>capturedImages := capturedImages s @
               [split_comma_1 (toDataURL (videoWidth video) (videoHeight video)
                                 (lit ''image/jpeg'') (8 / 10))]\<rparr>))
   \<and> (\<not> capture_ready r \<longrightarrow> snd (capturePhoto toDataURL (r, s)) = s)"
  by (auto simp: capture_ready_def capturePhoto_def Let_def split: option.splits)

theorem capturePhoto_appends_or_noop_witness:
  "capture_ready mounted_refs
   \<and> capturedImages (snd (capturePhoto sample_toDataURL (mounted_refs, cam_state)))
       = [Some (lit ''QUJD'')]
   \<and> \<not> capture_ready (mounted_refs\<lparr>videoRef := None\<rparr>)
   \<and> snd (capturePhoto sample_toDataURL (mounted_refs\<lparr>videoRef := None\<rparr>, cam_state))
       = cam_state"
proof -
  have r: "capture_ready mounted_refs"
    by (simp add: capture_ready_def mounted_refs_def HAVE_ENOUGH_DATA_def)
  have n: "\<not> capture_ready (mounted_refs\<lparr>videoRef := None\<rparr>)"
    by (simp add: capture_ready_def mounted_refs_def)
  have e: "\<And>q. split_comma_1 (sample_toDataURL 640 480 (lit ''image/jpeg'') q) = Some (lit ''QUJD'')"
    by (simp add: sample_toDataURL_def split_comma_1_def lit_def)
  have v: "videoRef mounted_refs = Some \<lparr>readyState = 4, videoWidth = 640, videoHeight = 480\<rparr>"
    by (simp add: mounted_refs_def)
  have c: "capturedImages cam_state = []"
    by (simp add: cam_state_def init_app_def)
  show ?thesis
    using capturePhoto_appends_or_noop [of mounted_refs sample_toDataURL cam_state]
      capturePhoto_appends_or_noop [of "mounted_refs\<lparr>videoRef := None\<rparr>" sample_toDataURL
        cam_state] r n
    by (auto simp: v e c)
qed

section \<open>Names of detected ingredients\<close>

text \<open>
  C7. Every ingredient made from a detected name should have a non-empty name with a
  capitalized first character. The code breaks this for the detected name \<open>""\<close>:
  \<open>processImages\<close> maps it to an ingredient whose name is empty and appends it to the
  roster. The other creation path does guard the name: \<open>addManualIngredient\<close> returns
  without adding anything when the trimmed text is empty.
\<close>

theorem detected_empty_name:
  "ingredients (processImages upper_ascii (\<lambda>_. 1700) (\<lambda>_. Inr [[]]) [Some (lit ''QUJD'')] init_app)
     = [\<lparr>ing_id = lit ''ing-1700-0'', name = [], isPriority = False\<rparr>]
   \<and> addManualIngredient 1700 (init_app\<lparr>newIngredientText := lit ''  ''\<rparr>)
     = init_app\<lparr>newIngredientText := lit ''  ''\<rparr>"
proof -
  have d: "detect_id 1700 0 = lit ''ing-1700-0''"
    by (simp add: detect_id_def show_int_def show_nat.simps lit_def)
  have t: "trim (lit ''  '') = []" by (simp add: trim_def lit_def is_ws_def)
  show ?thesis
    by (simp add: processImages_def newIngredients_def enumerate_eq_zip capitalize_def
        init_app_def d addManualIngredient_def t)
qed

text \<open>
  Away from the empty name the mapping does what is required. Upper-casing never turns a
  code unit into the empty string; then every ingredient mapped from a non-empty detected
  name has a non-empty name: the upper-case form of the first code unit followed by the
  rest of the detected name unchanged.
\<close>

lemma detected_name_capitalized:
  assumes "\<forall>c. upper c \<noteq> []"
  shows "\<forall>i<length names. names ! i \<noteq> [] \<longrightarrow>
              name (newIngredients upper now names ! i) \<noteq> []
              \<and> name (newIngredients upper now names ! i) = upper (hd (names ! i)) @ tl (names ! i)"
  using assms
  by (auto simp: newIngredients_def nth_enumerate_eq capitalize_def drop_Suc split: list.splits)

lemma detected_name_capitalized_example:
  "(\<forall>c. upper_ascii c \<noteq> [])
   \<and> name (newIngredients upper_ascii (\<lambda>_. 1700) [lit ''tomate'', lit ''queso''] ! 1) = lit ''Queso''"
proof -
  have u: "\<forall>c. upper_ascii c \<noteq> []" by (simp add: upper_ascii_def)
  have "lit ''queso'' \<noteq> []" by (simp add: lit_def)
  then have "name (newIngredients upper_ascii (\<lambda>_. 1700) [lit ''tomate'', lit ''queso''] ! 1)
       = upper_ascii (hd (lit ''queso'')) @ tl (lit ''queso'')"
    using detected_name_capitalized [OF u, of "[lit ''tomate'', lit ''queso'']" "\<lambda>_. 1700"] by simp
  then show ?thesis using u by (simp add: upper_ascii_def lit_def)
qed

section \<open>The brief sent by suggestRecipes\<close>


lemma sublist_in_right: "sublist xs ys \<Longrightarrow> sublist xs (ys @ ss)"
  unfolding sublist_def by (metis append.assoc)





























section \<open>Uniqueness of roster identifiers\<close>

lemma show_nat_nonempty: "show_nat n \<noteq> []"
  by (subst show_nat.simps) simp

lemma show_nat_digits: "c \<in> set (show_nat n) \<Longrightarrow> 48 \<le> c \<and> c \<le> 57"
proof (induction n arbitrary: c rule: show_nat.induct)
  case (1 n)
  show ?case
  proof (cases "n < 10")
    case True
    then have "show_nat n = [48 + n]" by (subst show_nat.simps) simp
    with "1.prems" True show ?thesis by simp
  next
    case False
    then have "show_nat n = show_nat (n div 10) @ [48 + n mod 10]"
      by (subst show_nat.simps) simp
    with "1.prems" have "c \<in> set (show_nat (n div 10)) \<or> c = 48 + n mod 10" by auto
    then show ?thesis
    proof
      assume "c \<in> set (show_nat (n div 10))"
      with "1.IH" False show ?thesis by blast
    next
      assume "c = 48 + n mod 10"
      moreover have "n mod 10 < 10" by simp
      ultimately show ?thesis by linarith
    qed
  qed
qed

lemma show_nat_no_minus: "45 \<notin> set (show_nat n)"
  using show_nat_digits [of 45 n] by auto

lemma show_nat_inj: "show_nat m = show_nat n \<Longrightarrow> m = n"
proof (induction m arbitrary: n rule: show_nat.induct)
  case (1 m)
  show ?case
  proof (cases "m < 10")
    case m: True
    show ?thesis
    proof (cases "n < 10")
      case True
      with m "1.prems" show ?thesis by (simp add: show_nat.simps [of m] show_nat.simps [of n])
    next
      case False
      with m "1.prems" show_nat_nonempty [of "n div 10"] show ?thesis
        by (simp add: show_nat.simps [of m] show_nat.simps [of n])
    qed
  next
    case m: False
    show ?thesis
    proof (cases "n < 10")
      case True
      with m "1.prems" show_nat_nonempty [of "m div 10"] show ?thesis
        by (simp add: show_nat.simps [of m] show_nat.simps [of n])
    next
      case False
      with m "1.prems" have e: "show_nat (m div 10) = show_nat (n div 10)" "m mod 10 = n mod 10"
        by (simp_all add: show_nat.simps [of m] show_nat.simps [of n])
      from "1.IH" [OF m e(1)] have "m div 10 = n div 10" .
      with e(2) show ?thesis by (metis div_mult_mod_eq)
    qed
  qed
qed

lemma minus_not_digit: "45 # show_nat x \<noteq> show_nat y"
proof
  assume "45 # show_nat x = show_nat y"
  then have "45 \<in> set (show_nat y)" by (metis list.set_intros(1))
  then show False using show_nat_no_minus by blast
qed

lemma show_int_inj: "show_int a = show_int b \<Longrightarrow> a = b"
proof -
  assume e: "show_int a = show_int b"
  show ?thesis
  proof (cases "a < 0")
    case a: True
    show ?thesis
    proof (cases "b < 0")
      case True
      with a e have "show_nat (nat (- a)) = show_nat (nat (- b))" by (simp add: show_int_def)
      then have "nat (- a) = nat (- b)" by (rule show_nat_inj)
      with a True show ?thesis by linarith
    next
      case False
      with a e minus_not_digit [of "nat (- a)" "nat b"] show ?thesis by (simp add: show_int_def)
    qed
  next
    case a: False
    show ?thesis
    proof (cases "b < 0")
      case True
      with a e minus_not_digit [of "nat (- b)" "nat a"] show ?thesis by (simp add: show_int_def)
    next
      case False
      with a e have "show_nat (nat a) = show_nat (nat b)" by (simp add: show_int_def)
      then have "nat a = nat b" by (rule show_nat_inj)
      with a False show ?thesis by linarith
    qed
  qed
qed

lemma manual_id_inj: "manual_id a = manual_id b \<Longrightarrow> a = b"
  by (simp add: manual_id_def show_int_inj)

lemma split_first_sep:
  "c \<notin> set xs \<Longrightarrow> c \<notin> set xs' \<Longrightarrow> xs @ c # ys = xs' @ c # ys' \<Longrightarrow> xs = xs' \<and> ys = ys'"
proof (induction xs arbitrary: xs')
  case Nil
  then show ?case by (cases xs') auto
next
  case (Cons a xs)
  then show ?case by (cases xs') auto
qed

lemma split_last_sep:
  assumes "xs @ c # ys = xs' @ c # ys'" and "c \<notin> set ys" and "c \<notin> set ys'"
  shows "xs = xs' \<and> ys = ys'"
proof -
  from assms(1) have "rev (xs @ c # ys) = rev (xs' @ c # ys')" by simp
  then have "rev ys @ c # rev xs = rev ys' @ c # rev xs'" by simp
  moreover have "c \<notin> set (rev ys)" "c \<notin> set (rev ys')" using assms(2,3) by simp_all
  ultimately have "rev ys = rev ys' \<and> rev xs = rev xs'"
    using split_first_sep [of c "rev ys" "rev ys'" "rev xs" "rev xs'"] by blast
  then show ?thesis by simp
qed

lemma detect_id_inj: "detect_id t i = detect_id t' i' \<Longrightarrow> t = t' \<and> i = i'"
proof -
  assume "detect_id t i = detect_id t' i'"
  then have "show_int t @ 45 # show_nat i = show_int t' @ 45 # show_nat i'"
    by (simp add: detect_id_def)
  then have "show_int t = show_int t' \<and> show_nat i = show_nat i'"
    by (rule split_last_sep [OF _ show_nat_no_minus show_nat_no_minus])
  then show ?thesis using show_int_inj show_nat_inj by blast
qed

lemma manual_detect_diff: "manual_id a \<noteq> detect_id t i"
  by (simp add: manual_id_def detect_id_def lit_def)

lemma detect_manual_diff: "detect_id t i \<noteq> manual_id a"
  by (simp add: manual_id_def detect_id_def lit_def)


lemma inj_detect_id: "inj (case_prod detect_id)"
  by (auto simp: inj_on_def dest: detect_id_inj)

lemma inj_manual_id: "inj manual_id"
  by (auto simp: inj_on_def dest: manual_id_inj)

lemma roster_ids_detect:
  "roster_ids (roster_step upper s (DetectBatch now names)) =
     roster_ids s @ map (case_prod detect_id) (map (\<lambda>idx. (now idx, idx)) [0..<length names])"
proof -
  have "map (\<lambda>x. detect_id (now (fst x)) (fst x)) (zip [0..<length names] names)
      = map (\<lambda>x. detect_id (now x) x) [0..<length names]"
    by (rule nth_equalityI) simp_all
  then show ?thesis
    by (simp add: roster_ids_def processImages_def newIngredients_def enumerate_eq_zip
        case_prod_beta comp_def)
qed

lemma roster_ids_manual:
  "roster_ids (roster_step upper s (ManualAdd now txt)) =
     roster_ids s @ (if trim txt = [] then [] else [manual_id now])"
  by (simp add: roster_ids_def addManualIngredient_def)

lemma roster_ids_remove:
  "roster_ids (roster_step upper s (Remove i)) = filter (\<lambda>x. x \<noteq> i) (roster_ids s)"
  by (simp add: roster_ids_def removeIngredient_def filter_map comp_def)

lemma roster_ids_toggle:
  "roster_ids (roster_step upper s (Toggle i)) = roster_ids s"
  by (simp add: roster_ids_def togglePriority_def comp_def if_distrib cong: if_cong)

lemma disjoint_union:
  "A \<inter> (M \<union> D) = {} \<Longrightarrow> B \<inter> D = {} \<Longrightarrow> B \<inter> M = {} \<Longrightarrow> (A \<union> B) \<inter> (M \<union> D) = {}"
  by blast

lemma run_distinct:
  "distinct (roster_ids s) \<Longrightarrow> distinct (manual_stamps ops) \<Longrightarrow> distinct (detect_stamps ops) \<Longrightarrow>
   set (roster_ids s) \<inter> (manual_id ` set (manual_stamps ops)
                             \<union> case_prod detect_id ` set (detect_stamps ops)) = {} \<Longrightarrow>
   distinct (roster_ids (foldl (roster_step upper) s ops))"
proof (induction ops arbitrary: s)
  case Nil
  then show ?case by simp
next
  case (Cons op ops)
  let ?s = "roster_step upper s op"
  have "distinct (roster_ids ?s) \<and> distinct (manual_stamps ops) \<and> distinct (detect_stamps ops)
     \<and> set (roster_ids ?s) \<inter> (manual_id ` set (manual_stamps ops)
                             \<union> case_prod detect_id ` set (detect_stamps ops)) = {}"
  proof (cases op)
    case (DetectBatch now names)
    define B where "B = map (\<lambda>idx. (now idx, idx)) [0..<length names]"
    have st: "detect_stamps (op # ops) = B @ detect_stamps ops"
      "manual_stamps (op # ops) = manual_stamps ops"
      using DetectBatch by (simp_all add: B_def)
    from Cons.prems(3)
    have d: "distinct B" "distinct (detect_stamps ops)" "set B \<inter> set (detect_stamps ops) = {}"
      unfolding st by simp_all
    have ids: "roster_ids ?s = roster_ids s @ map (case_prod detect_id) B"
      using DetectBatch roster_ids_detect by (simp add: B_def)
    have 1: "distinct (map (case_prod detect_id) B)"
      using d(1) inj_detect_id by (simp only: distinct_map) (metis inj_on_subset subset_UNIV)
    have 5: "set (roster_ids s) \<inter> (manual_id ` set (manual_stamps ops)
               \<union> (case_prod detect_id ` set B \<union> case_prod detect_id ` set (detect_stamps ops))) = {}"
      using Cons.prems(4) unfolding st by (simp add: image_Un)
    have 2: "set (roster_ids s) \<inter> set (map (case_prod detect_id) B) = {}"
      using 5 unfolding set_map by blast
    have 3: "case_prod detect_id ` set B \<inter> case_prod detect_id ` set (detect_stamps ops) = {}"
      using d(3) inj_detect_id by (metis image_Int image_empty)
    have 4: "case_prod detect_id ` set B \<inter> manual_id ` set (manual_stamps ops) = {}"
      by (auto simp: manual_detect_diff detect_manual_diff)
    have 6: "set (roster_ids s) \<inter> (manual_id ` set (manual_stamps ops)
               \<union> case_prod detect_id ` set (detect_stamps ops)) = {}"
      using 5 by blast
    have m: "distinct (manual_stamps ops)" using Cons.prems(2) by (simp only: st)
    have "distinct (roster_ids ?s)"
      unfolding ids distinct_append using Cons.prems(1) 1 2 by (intro conjI)
    moreover have "set (roster_ids ?s) \<inter> (manual_id ` set (manual_stamps ops)
                             \<union> case_prod detect_id ` set (detect_stamps ops)) = {}"
      unfolding ids set_append set_map by (rule disjoint_union [OF 6 3 4])
    ultimately show ?thesis using m d(2) by blast
  next
    case (ManualAdd now tx)
    have idm: "roster_ids ?s = roster_ids s @ (if trim tx = [] then [] else [manual_id now])"
      unfolding ManualAdd by (rule roster_ids_manual)
    have dd: "distinct (detect_stamps ops)" using Cons.prems(3) ManualAdd by simp
    show ?thesis
    proof (cases "trim tx = []")
      case True
      then have ids: "roster_ids ?s = roster_ids s" using idm by simp
      have st: "manual_stamps (op # ops) = manual_stamps ops"
        "detect_stamps (op # ops) = detect_stamps ops"
        using ManualAdd True by simp_all
      show ?thesis using Cons.prems dd unfolding ids st by blast
    next
      case False
      then have ids: "roster_ids ?s = roster_ids s @ [manual_id now]" using idm by simp
      have st: "manual_stamps (op # ops) = now # manual_stamps ops"
        "detect_stamps (op # ops) = detect_stamps ops"
        using ManualAdd False by simp_all
      from Cons.prems(2)
      have d: "now \<notin> set (manual_stamps ops)" "distinct (manual_stamps ops)"
        unfolding st by simp_all
      have 5: "set (roster_ids s) \<inter> (insert (manual_id now) (manual_id ` set (manual_stamps ops))
                             \<union> case_prod detect_id ` set (detect_stamps ops)) = {}"
        using Cons.prems(4) unfolding st by simp
      have 1: "manual_id now \<notin> set (roster_ids s)"
        using 5 by blast
      have 2: "manual_id now \<notin> manual_id ` set (manual_stamps ops)"
        using d(1) manual_id_inj by blast
      have 3: "manual_id now \<notin> case_prod detect_id ` set (detect_stamps ops)"
        by (auto simp: manual_detect_diff detect_manual_diff)
      have 6: "set (roster_ids s) \<inter> (manual_id ` set (manual_stamps ops)
                             \<union> case_prod detect_id ` set (detect_stamps ops)) = {}"
        using 5 by blast
      have "distinct (roster_ids ?s)" using Cons.prems(1) 1 unfolding ids by simp
      moreover have "set (roster_ids ?s) \<inter> (manual_id ` set (manual_stamps ops)
                             \<union> case_prod detect_id ` set (detect_stamps ops)) = {}"
        using 2 3 6 unfolding ids by simp
      ultimately show ?thesis using d(2) dd by blast
    qed
  next
    case (Remove i)
    have ids: "roster_ids ?s = filter (\<lambda>x. x \<noteq> i) (roster_ids s)"
      unfolding Remove by (rule roster_ids_remove)
    have st: "manual_stamps (op # ops) = manual_stamps ops"
      "detect_stamps (op # ops) = detect_stamps ops"
      using Remove by simp_all
    have "distinct (roster_ids ?s)" using Cons.prems(1) unfolding ids by simp
    moreover have "set (roster_ids ?s) \<subseteq> set (roster_ids s)" unfolding ids by auto
    ultimately show ?thesis using Cons.prems(2,3,4) unfolding st by blast
  next
    case (Toggle i)
    have ids: "roster_ids ?s = roster_ids s"
      unfolding Toggle by (rule roster_ids_toggle)
    have st: "manual_stamps (op # ops) = manual_stamps ops"
      "detect_stamps (op # ops) = detect_stamps ops"
      using Toggle by simp_all
    show ?thesis using Cons.prems unfolding ids st by blast
  qed
  then have "distinct (roster_ids (foldl (roster_step upper) ?s ops))"
    using Cons.IH by blast
  then show ?case by simp
qed

text \<open>
  C1. The identifiers in the roster should stay pairwise distinct: an identifier is the
  list key of its row and the handle by which \<open>removeIngredient\<close> and \<open>togglePriority\<close>
  pick an entry. The code breaks this: an identifier is built from the reading of the
  millisecond clock, and nothing checks it against the roster. Two manual adds at one
  reading give two different entries the same identifier; one removal then deletes both
  and one toggle flags both. Two detection batches mapped at one reading collide in the
  same way, position by position.
\<close>

theorem ids_collide_at_same_clock:
  "roster_ids (run_roster upper_ascii init_app
       [ManualAdd 1700 (lit ''ajo''), ManualAdd 1700 (lit ''sal'')])
     = [lit ''manual-1700'', lit ''manual-1700'']
   \<and> map name (ingredients (run_roster upper_ascii init_app
       [ManualAdd 1700 (lit ''ajo''), ManualAdd 1700 (lit ''sal'')]))
     = [lit ''ajo'', lit ''sal'']
   \<and> \<not> distinct (roster_ids (run_roster upper_ascii init_app
       [ManualAdd 1700 (lit ''ajo''), ManualAdd 1700 (lit ''sal'')]))
   \<and> ingredients (run_roster upper_ascii init_app
       [ManualAdd 1700 (lit ''ajo''), ManualAdd 1700 (lit ''sal''), Remove (lit ''manual-1700'')])
     = []
   \<and> map isPriority (ingredients (run_roster upper_ascii init_app
       [ManualAdd 1700 (lit ''ajo''), ManualAdd 1700 (lit ''sal''), Toggle (lit ''manual-1700'')]))
     = [True, True]
   \<and> roster_ids (run_roster upper_ascii init_app
       [DetectBatch (\<lambda>_. 1700) [lit ''tomate''], DetectBatch (\<lambda>_. 1700) [lit ''queso'']])
     = [lit ''ing-1700-0'', lit ''ing-1700-0'']"
proof -
  have t: "trim (lit ''ajo'') = lit ''ajo''" "trim (lit ''sal'') = lit ''sal''"
    by (simp_all add: trim_def lit_def is_ws_def)
  have n: "lit ''ajo'' \<noteq> []" "lit ''sal'' \<noteq> []" by (simp_all add: lit_def)
  have m: "manual_id 1700 = lit ''manual-1700''"
    by (simp add: manual_id_def show_int_def show_nat.simps lit_def)
  have d: "detect_id 1700 0 = lit ''ing-1700-0''"
    by (simp add: detect_id_def show_int_def show_nat.simps lit_def)
  have 1: "ingredients (run_roster upper_ascii init_app
       [ManualAdd 1700 (lit ''ajo''), ManualAdd 1700 (lit ''sal'')])
     = [\<lparr>ing_id = lit ''manual-1700'', name = lit ''ajo'', isPriority = False\<rparr>,
        \<lparr>ing_id = lit ''manual-1700'', name = lit ''sal'', isPriority = False\<rparr>]"
    using n by (simp add: run_roster_def addManualIngredient_def init_app_def t m)
  have 2: "ingredients (run_roster upper_ascii init_app
       [ManualAdd 1700 (lit ''ajo''), ManualAdd 1700 (lit ''sal''), Remove (lit ''manual-1700'')])
     = []"
    using n by (simp add: run_roster_def addManualIngredient_def removeIngredient_def init_app_def t m)
  have 3: "map isPriority (ingredients (run_roster upper_ascii init_app
       [ManualAdd 1700 (lit ''ajo''), ManualAdd 1700 (lit ''sal''), Toggle (lit ''manual-1700'')]))
     = [True, True]"
    using n by (simp add: run_roster_def addManualIngredient_def togglePriority_def init_app_def t m)
  have 4: "roster_ids (run_roster upper_ascii init_app
       [DetectBatch (\<lambda>_. 1700) [lit ''tomate''], DetectBatch (\<lambda>_. 1700) [lit ''queso'']])
     = [lit ''ing-1700-0'', lit ''ing-1700-0'']"
    by (simp add: run_roster_def roster_ids_def processImages_def newIngredients_def
        enumerate_eq_zip init_app_def d)
  show ?thesis using 2 3 4 by (simp add: roster_ids_def 1)
qed

text \<open>
  The collision needs a repeated clock reading. Starting from an empty roster, when no two
  manual adds that add an entry read the same value of the clock and no two detected names
  at the same position of their batches are mapped at the same value, the identifiers stay
  pairwise distinct through every sequence of the four operations.
\<close>

lemma roster_ids_distinct:
  assumes "ingredients s = []"
    and "distinct (manual_stamps ops)" and "distinct (detect_stamps ops)"
  shows "distinct (roster_ids (run_roster upper s ops))"
  unfolding run_roster_def
  using assms by (intro run_distinct) (simp_all add: roster_ids_def)

lemma roster_ids_distinct_example:
  "ingredients init_app = [] \<and> distinct (manual_stamps sample_ops) \<and> distinct (detect_stamps sample_ops)
   \<and> distinct (roster_ids (run_roster upper_ascii init_app sample_ops))"
proof -
  have a: "ingredients init_app = []" by (simp add: init_app_def)
  have t: "trim (lit ''sal'') = lit ''sal''" by (simp add: trim_def lit_def is_ws_def)
  have n: "lit ''ajo'' \<noteq> []" "lit ''sal'' \<noteq> []" by (simp_all add: lit_def)
  have m: "manual_stamps sample_ops = [1701, 1702]"
    using n by (simp add: sample_ops_def trim_ajo t)
  have d: "detect_stamps sample_ops = [(1700, 0), (1700, 1)]"
    by (simp add: sample_ops_def upt_rec)
  have dm: "distinct (manual_stamps sample_ops)" by (simp add: m)
  have dd: "distinct (detect_stamps sample_ops)" by (simp add: d)
  show ?thesis using roster_ids_distinct [OF a dm dd, of upper_ascii] a dm dd by blast
qed

end
